theory Spec2Isabelle
  imports Main "HOL-Library.AList"
begin

section \<open>pyfs: an in-memory file system\<close>

text \<open>
  A shallow embedding of \<^verbatim>\<open>src/pyfs/inode.py\<close> and \<^verbatim>\<open>src/pyfs/filesystem.py\<close>.

  Python objects are shared and mutated in place (hard links, the \<^verbatim>\<open>.\<close>/\<^verbatim>\<open>..\<close>
  back-references), so inodes live in an explicit store: a list of nodes addressed by
  index. Constructing an object appends to the store; mutating an object updates its
  slot. Objects are never removed from the store (whether Python reclaims an
  unreferenced object cannot be observed through the API).

  The three timestamps of an inode come from \<^verbatim>\<open>datetime.now()\<close> and are left out,
  and so is the \<^verbatim>\<open>show_details\<close> branch of \<^verbatim>\<open>ls\<close>, which only formats them.
  A Python \<^verbatim>\<open>str\<close> is a \<^typ>\<open>string\<close>; only the ASCII separator \<^verbatim>\<open>/\<close> is ever inspected.
\<close>

subsection \<open>Strings and exceptions\<close>

abbreviation PATH_SEPARATOR :: char where
  "PATH_SEPARATOR \<equiv> CHR ''/''"

abbreviation PARENT_DIR_NAME :: string where
  "PARENT_DIR_NAME \<equiv> ''..''"

abbreviation THIS_DIR_NAME :: string where
  "THIS_DIR_NAME \<equiv> ''.''"

text \<open>\<^verbatim>\<open>name.split("/")\<close>: never empty, \<^verbatim>\<open>"".split("/") == [""]\<close>.\<close>

fun str_split :: "string \<Rightarrow> string list" where
  "str_split [] = [[]]"
| "str_split (c # cs) =
     (if c = PATH_SEPARATOR then [] # str_split cs
      else (case str_split cs of
              p # ps \<Rightarrow> (c # p) # ps
            | [] \<Rightarrow> [[c]]))"

text \<open>\<^verbatim>\<open>"/".join(parts)\<close>.\<close>

fun str_join :: "string list \<Rightarrow> string" where
  "str_join [] = []"
| "str_join [p] = p"
| "str_join (p # q # ps) = p @ PATH_SEPARATOR # str_join (q # ps)"

text \<open>\<^verbatim>\<open>name.startswith("/")\<close>.\<close>

fun startswith_sep :: "string \<Rightarrow> bool" where
  "startswith_sep [] = False"
| "startswith_sep (c # cs) = (c = PATH_SEPARATOR)"

text \<open>
  \<^verbatim>\<open>*parent_dirs, requested = name.split("/")\<close> followed by
  \<^verbatim>\<open>parent_path = "/".join(parent_dirs)\<close>, as every operation with a compound path does.
\<close>

definition requested_of :: "string \<Rightarrow> string" where
  "requested_of name = last (str_split name)"

definition parent_path_of :: "string \<Rightarrow> string" where
  "parent_path_of name = str_join (butlast (str_split name))"

text \<open>
  The four exceptions of \<^verbatim>\<open>exceptions.py\<close>, and the two built-in ones the code can raise:
  \<^verbatim>\<open>KeyError\<close> from \<^verbatim>\<open>dict.pop\<close> and \<^verbatim>\<open>IndexError\<close> from \<^verbatim>\<open>list[-1]\<close>.
\<close>

datatype error =
    NoSuchFileOrDirectory string
  | NotADirectory string
  | IsADirectory string
  | FileExists string
  | KeyError string
  | IndexError

subsection \<open>Inodes (inode.py)\<close>

type_synonym addr = nat

text \<open>A directory entry, and an item of \<^verbatim>\<open>_children.items()\<close>: a name and a node.\<close>

type_synonym entry = "string \<times> addr"

text \<open>
  \<^verbatim>\<open>_meta\<close> and \<^verbatim>\<open>_children\<close> are Python dictionaries, which keep insertion order:
  association lists, read with \<^const>\<open>map_of\<close>, written with \<^const>\<open>AList.update\<close>
  (replace the value in place, or append a new key) and \<^const>\<open>AList.delete\<close>.
\<close>

datatype node =
    FileNode (links: int) (contents: string)
  | DirectoryNode (links: int) (meta: "(string \<times> addr) list") (children: "(string \<times> addr) list")

fun isinstance_DirectoryNode :: "node \<Rightarrow> bool" where
  "isinstance_DirectoryNode (DirectoryNode l m ch) = True"
| "isinstance_DirectoryNode (FileNode l c) = False"

fun isinstance_FileNode :: "node \<Rightarrow> bool" where
  "isinstance_FileNode (FileNode l c) = True"
| "isinstance_FileNode (DirectoryNode l m ch) = False"

text \<open>\<^verbatim>\<open>INode.__init__\<close> sets \<^verbatim>\<open>links = 1\<close>; \<^verbatim>\<open>FileNode.__init__\<close> adds empty contents.\<close>

definition FileNode_init :: node where
  "FileNode_init = FileNode 1 []"

text \<open>
  \<^verbatim>\<open>DirectoryNode.__init__(parent)\<close>, for the object that is being stored at address
  \<open>self\<close>: \<^verbatim>\<open>_meta = {".": self, "..": parent or self}\<close>.
\<close>

definition DirectoryNode_init :: "addr \<Rightarrow> addr option \<Rightarrow> node" where
  "DirectoryNode_init self parent =
     DirectoryNode 1
       [(THIS_DIR_NAME, self), (PARENT_DIR_NAME, (case parent of None \<Rightarrow> self | Some p \<Rightarrow> p))]
       []"

text \<open>\<^verbatim>\<open>self._children.get(name) or self._meta.get(name)\<close>; a node object is always truthy.\<close>

fun find_child :: "node \<Rightarrow> string \<Rightarrow> addr option" where
  "find_child (DirectoryNode l m ch) name =
     (case map_of ch name of
        Some n \<Rightarrow> Some n
      | None \<Rightarrow> map_of m name)"

fun add_child :: "node \<Rightarrow> string \<Rightarrow> addr \<Rightarrow> node" where
  "add_child (DirectoryNode l m ch) name n = DirectoryNode l m (AList.update name n ch)"

text \<open>\<^verbatim>\<open>self._children.pop(name)\<close> raises \<^verbatim>\<open>KeyError\<close> when the name is absent.\<close>

fun delete_child :: "node \<Rightarrow> string \<Rightarrow> error + (addr \<times> node)" where
  "delete_child (DirectoryNode l m ch) name =
     (case map_of ch name of
        None \<Rightarrow> Inl (KeyError name)
      | Some n \<Rightarrow> Inr (n, DirectoryNode l m (AList.delete name ch)))"

fun write_contents :: "node \<Rightarrow> string \<Rightarrow> node" where
  "write_contents (FileNode l c) new = FileNode l new"

fun read_contents :: "node \<Rightarrow> string" where
  "read_contents (FileNode l c) = c"

text \<open>\<^verbatim>\<open>yield from self._contents\<close>: the characters, one at a time.\<close>

fun stream_contents :: "node \<Rightarrow> string list" where
  "stream_contents (FileNode l c) = map (\<lambda>ch. [ch]) c"

text \<open>The real entries of a node: the child table of a directory, none for a file.\<close>

fun entries_of :: "node \<Rightarrow> entry list" where
  "entries_of (DirectoryNode l m ch) = ch"
| "entries_of (FileNode l c) = []"

text \<open>\<^verbatim>\<open>node.links += k\<close>.\<close>

fun add_links :: "int \<Rightarrow> node \<Rightarrow> node" where
  "add_links k (FileNode l c) = FileNode (l + k) c"
| "add_links k (DirectoryNode l m ch) = DirectoryNode (l + k) m ch"

subsection \<open>The session (filesystem.py)\<close>

record filesystem =
  heap :: "node list"
  current :: addr
  path_to_current :: "(string \<times> addr) list"
  root :: addr

definition FileSystem_init :: filesystem where
  "FileSystem_init =
     \<lparr>heap = [DirectoryNode_init 0 None], current = 0, path_to_current = [([], 0)], root = 0\<rparr>"

text \<open>
  \<^verbatim>\<open>isinstance(node, DirectoryNode)\<close> for the object at an address. A Python reference
  always points to an object; the bound check only makes the model total.
\<close>

definition is_dir :: "node list \<Rightarrow> addr \<Rightarrow> bool" where
  "is_dir h a = (a < length h \<and> isinstance_DirectoryNode (h ! a))"

definition is_file :: "node list \<Rightarrow> addr \<Rightarrow> bool" where
  "is_file h a = (a < length h \<and> isinstance_FileNode (h ! a))"

text \<open>The loop of \<^verbatim>\<open>_get_node\<close>: a part is skipped when the node is absent or not a directory.\<close>

fun get_node_loop :: "node list \<Rightarrow> addr option \<Rightarrow> string list \<Rightarrow> addr option" where
  "get_node_loop h node [] = node"
| "get_node_loop h node (part # parts) =
     (case node of
        None \<Rightarrow> get_node_loop h node parts
      | Some a \<Rightarrow>
          if is_dir h a then get_node_loop h (find_child (h ! a) part) parts
          else get_node_loop h node parts)"

definition get_node :: "filesystem \<Rightarrow> string \<Rightarrow> addr option" where
  "get_node s name =
     (if name = [] then Some (current s)
      else
        let is_root_relative = startswith_sep name;
            name' = (if is_root_relative then tl name else name);
            parts = str_split name';
            node = (if is_root_relative then root s else current s)
        in get_node_loop (heap s) (Some node) parts)"

definition get_node_or_fail :: "filesystem \<Rightarrow> string \<Rightarrow> error + addr" where
  "get_node_or_fail s name =
     (case get_node s name of
        None \<Rightarrow> Inl (NoSuchFileOrDirectory name)
      | Some node \<Rightarrow> Inr node)"

definition get_directory_or_fail :: "filesystem \<Rightarrow> string \<Rightarrow> error + addr" where
  "get_directory_or_fail s name =
     (case get_node_or_fail s name of
        Inl e \<Rightarrow> Inl e
      | Inr node \<Rightarrow> if \<not> is_dir (heap s) node then Inl (NotADirectory name) else Inr node)"

definition fail_if_node_exists :: "filesystem \<Rightarrow> string \<Rightarrow> error + unit" where
  "fail_if_node_exists s name =
     (case get_node s name of
        Some node \<Rightarrow> Inl (FileExists name)
      | None \<Rightarrow> Inr ())"

text \<open>
  \<^verbatim>\<open>_resolve_path\<close> returns a list object. For a root-relative name it is a list built
  in the call; otherwise it is \<^verbatim>\<open>self._path_to_current\<close> itself, the session's own
  list, which the loop then pops from and appends to in place. The result is therefore
  a reference: to the session's list, or to a fresh one.
\<close>

datatype chain_ref = Session | Fresh "(string \<times> addr) list"

fun deref :: "filesystem \<Rightarrow> chain_ref \<Rightarrow> (string \<times> addr) list" where
  "deref s Session = path_to_current s"
| "deref s (Fresh p) = p"

text \<open>
  The loop of \<^verbatim>\<open>_resolve_path\<close> over the list \<open>path\<close>. It returns the list as the
  loop left it, also when it raises, because the mutation of the session's list survives
  the exception.
\<close>

fun resolve_loop ::
  "node list \<Rightarrow> string \<Rightarrow> addr \<Rightarrow> (string \<times> addr) list \<Rightarrow> string list
    \<Rightarrow> error option \<times> (string \<times> addr) list" where
  "resolve_loop h name node path [] = (None, path)"
| "resolve_loop h name node path (part # parts) =
     (case find_child (h ! node) part of
        None \<Rightarrow> (Some (NoSuchFileOrDirectory name), path)
      | Some next_node \<Rightarrow>
          if is_dir h next_node then
            (if part = PARENT_DIR_NAME then
               resolve_loop h name next_node (if length path > 1 then butlast path else path) parts
             else if part \<noteq> THIS_DIR_NAME then
               resolve_loop h name next_node (path @ [(part, next_node)]) parts
             else resolve_loop h name next_node path parts)
          else resolve_loop h name node path parts)"

definition resolve_path :: "filesystem \<Rightarrow> string \<Rightarrow> (error + chain_ref) \<times> filesystem" where
  "resolve_path s name =
     (if name = [] then (Inr Session, s)
      else
        let is_root_relative = startswith_sep name;
            name' = (if is_root_relative then tl name else name);
            parts = str_split name'
        in
          if is_root_relative then
            (case resolve_loop (heap s) name' (root s) [([], root s)] parts of
               (Some e, path) \<Rightarrow> (Inl e, s)
             | (None, path) \<Rightarrow> (Inr (Fresh path), s))
          else
            (case resolve_loop (heap s) name' (current s) (path_to_current s) parts of
               (Some e, path) \<Rightarrow> (Inl e, s\<lparr>path_to_current := path\<rparr>)
             | (None, path) \<Rightarrow> (Inr Session, s\<lparr>path_to_current := path\<rparr>)))"

text \<open>The loop of \<^verbatim>\<open>_create_tree\<close>; it returns the store as the loop left it.\<close>

fun create_tree_loop :: "node list \<Rightarrow> addr \<Rightarrow> string list \<Rightarrow> error option \<times> node list" where
  "create_tree_loop h node [] = (None, h)"
| "create_tree_loop h node (name # parts) =
     (if is_file h node then (Some (FileExists name), h)
      else
        (case find_child (h ! node) name of
           Some existing_node \<Rightarrow> create_tree_loop h existing_node parts
         | None \<Rightarrow>
             let new = length h;
                 h1 = h @ [DirectoryNode_init new (Some node)];
                 h2 = h1[node := add_child (h1 ! node) name new]
             in create_tree_loop h2 new parts))"

definition create_tree :: "filesystem \<Rightarrow> string \<Rightarrow> (error + unit) \<times> filesystem" where
  "create_tree s name =
     (let is_root_relative = startswith_sep name;
          name' = (if is_root_relative then tl name else name);
          parts = str_split name';
          node = (if is_root_relative then root s else current s)
      in case create_tree_loop (heap s) node parts of
           (Some e, h) \<Rightarrow> (Inl e, s\<lparr>heap := h\<rparr>)
         | (None, h) \<Rightarrow> (Inr (), s\<lparr>heap := h\<rparr>))"

subsection \<open>Operations\<close>

text \<open>
  Every operation returns its result, or the exception it raises, together with the
  state it leaves behind. \<^verbatim>\<open>cd\<close>, \<^verbatim>\<open>ls\<close> and \<^verbatim>\<open>find\<close> take an optional name, tested by
  truthiness: \<^verbatim>\<open>None\<close> and the empty string are alike.
\<close>

fun falsy :: "string option \<Rightarrow> bool" where
  "falsy None = True"
| "falsy (Some name) = (name = [])"

definition cd :: "filesystem \<Rightarrow> string option \<Rightarrow> (error + unit) \<times> filesystem" where
  "cd s name_opt =
     (if falsy name_opt then
        (Inr (), s\<lparr>current := root s, path_to_current := [([], root s)]\<rparr>)
      else
        let name = the name_opt in
        case get_node_or_fail s name of
          Inl e \<Rightarrow> (Inl e, s)
        | Inr node \<Rightarrow>
            if \<not> is_dir (heap s) node then (Inl (NotADirectory name), s)
            else
              (case resolve_path s name of
                 (Inl e, s1) \<Rightarrow> (Inl e, s1)
               | (Inr r, s1) \<Rightarrow>
                   let s2 = s1\<lparr>path_to_current := deref s1 r\<rparr>
                   in if path_to_current s2 = [] then (Inl IndexError, s2)
                      else (Inr (), s2\<lparr>current := snd (last (path_to_current s2))\<rparr>)))"

definition create_file :: "filesystem \<Rightarrow> string \<Rightarrow> (error + addr) \<times> filesystem" where
  "create_file s name =
     (case fail_if_node_exists s name of
        Inl e \<Rightarrow> (Inl e, s)
      | Inr u \<Rightarrow>
          let requested = requested_of name;
              parent_path = parent_path_of name
          in case get_directory_or_fail s parent_path of
               Inl e \<Rightarrow> (Inl e, s)
             | Inr parent_node \<Rightarrow>
                 let file_node = length (heap s);
                     h1 = heap s @ [FileNode_init];
                     h2 = h1[parent_node := add_child (h1 ! parent_node) requested file_node]
                 in (Inr file_node, s\<lparr>heap := h2\<rparr>))"

definition cwd :: "filesystem \<Rightarrow> string" where
  "cwd s =
     (let joined = str_join (map fst (path_to_current s))
      in if joined = [] then ''/'' else joined)"

definition ls :: "filesystem \<Rightarrow> string option \<Rightarrow> error + string list" where
  "ls s name_opt =
     (case (if \<not> falsy name_opt then get_directory_or_fail s (the name_opt) else Inr (current s)) of
        Inl e \<Rightarrow> Inl e
      | Inr node \<Rightarrow> Inr (map fst (children (heap s ! node))))"

definition ln :: "filesystem \<Rightarrow> string \<Rightarrow> string \<Rightarrow> (error + addr) \<times> filesystem" where
  "ln s target dest =
     (case get_node_or_fail s target of
        Inl e \<Rightarrow> (Inl e, s)
      | Inr target_node \<Rightarrow>
          let dest_requested = requested_of dest;
              dest_parent_path = parent_path_of dest
          in case get_directory_or_fail s dest_parent_path of
               Inl e \<Rightarrow> (Inl e, s)
             | Inr dest_parent_node \<Rightarrow>
                 let h1 = (heap s)[target_node := add_links 1 (heap s ! target_node)];
                     h2 = h1[dest_parent_node :=
                               add_child (h1 ! dest_parent_node) dest_requested target_node]
                 in (Inr target_node, s\<lparr>heap := h2\<rparr>))"

definition mkdir :: "filesystem \<Rightarrow> string \<Rightarrow> bool \<Rightarrow> (error + addr) \<times> filesystem" where
  "mkdir s name create_intermediates =
     (case fail_if_node_exists s name of
        Inl e \<Rightarrow> (Inl e, s)
      | Inr u \<Rightarrow>
          let requested_dir = requested_of name;
              parent_path = parent_path_of name
          in case (if create_intermediates then create_tree s parent_path else (Inr (), s)) of
               (Inl e, s1) \<Rightarrow> (Inl e, s1)
             | (Inr u1, s1) \<Rightarrow>
                 (case get_directory_or_fail s1 parent_path of
                    Inl e \<Rightarrow> (Inl e, s1)
                  | Inr parent_node \<Rightarrow>
                      let node = length (heap s1);
                          h1 = heap s1 @ [DirectoryNode_init node (Some parent_node)];
                          h2 = h1[parent_node := add_child (h1 ! parent_node) requested_dir node]
                      in (Inr node, s1\<lparr>heap := h2\<rparr>)))"

text \<open>
  \<^verbatim>\<open>mv\<close> probes \<^verbatim>\<open>new_name\<close> and discards the outcome (the \<^verbatim>\<open>try\<close> only swallows the one
  exception the probe can raise). Both \<^verbatim>\<open>_resolve_path\<close> calls run, the one for the new
  parent first, before their results are compared; a result that is the session's list
  is read at that moment.
\<close>

definition mv :: "filesystem \<Rightarrow> string \<Rightarrow> string \<Rightarrow> (error + addr) \<times> filesystem" where
  "mv s old_name new_name =
     (case get_node_or_fail s old_name of
        Inl e \<Rightarrow> (Inl e, s)
      | Inr node \<Rightarrow>
          let probe = get_node_or_fail s new_name;
              old_requested = requested_of old_name;
              old_parent_path = parent_path_of old_name
          in case get_directory_or_fail s old_parent_path of
               Inl e \<Rightarrow> (Inl e, s)
             | Inr old_parent_node \<Rightarrow>
                 let new_requested = requested_of new_name;
                     new_parent_path = parent_path_of new_name
                 in case get_directory_or_fail s new_parent_path of
                      Inl e \<Rightarrow> (Inl e, s)
                    | Inr new_parent_node \<Rightarrow>
                        (case resolve_path s new_parent_path of
                           (Inl e, s1) \<Rightarrow> (Inl e, s1)
                         | (Inr new_chain, s1) \<Rightarrow>
                             (case resolve_path s1 old_parent_path of
                                (Inl e, s2) \<Rightarrow> (Inl e, s2)
                              | (Inr old_chain, s2) \<Rightarrow>
                                  if deref s2 new_chain = deref s2 old_chain
                                     \<and> new_requested = old_requested
                                  then (Inr node, s2)
                                  else
                                    let h1 = (heap s2)[new_parent_node :=
                                               add_child (heap s2 ! new_parent_node) new_requested node]
                                    in case delete_child (h1 ! old_parent_node) old_requested of
                                         Inl e \<Rightarrow> (Inl e, s2\<lparr>heap := h1\<rparr>)
                                       | Inr (removed, d) \<Rightarrow>
                                           (Inr node, s2\<lparr>heap := h1[old_parent_node := d]\<rparr>))))"

text \<open>
  \<^verbatim>\<open>read_file\<close> returns the contents, or with \<^verbatim>\<open>stream=True\<close> a generator, given here by
  the sequence of one-character strings it yields.
\<close>

datatype read_result = Contents string | Stream "string list"

definition read_file :: "filesystem \<Rightarrow> string \<Rightarrow> bool \<Rightarrow> error + read_result" where
  "read_file s name stream =
     (case get_node_or_fail s name of
        Inl e \<Rightarrow> Inl e
      | Inr node \<Rightarrow>
          if is_dir (heap s) node then Inl (IsADirectory name)
          else if stream then Inr (Stream (stream_contents (heap s ! node)))
          else Inr (Contents (read_contents (heap s ! node))))"

definition rm :: "filesystem \<Rightarrow> string \<Rightarrow> bool \<Rightarrow> (error + addr) \<times> filesystem" where
  "rm s name recursive =
     (case get_node_or_fail s name of
        Inl e \<Rightarrow> (Inl e, s)
      | Inr node \<Rightarrow>
          if is_dir (heap s) node \<and> \<not> recursive then (Inl (IsADirectory name), s)
          else
            let requested = requested_of name;
                parent_path = parent_path_of name
            in case get_directory_or_fail s parent_path of
                 Inl e \<Rightarrow> (Inl e, s)
               | Inr parent_node \<Rightarrow>
                   let h1 = (heap s)[node := add_links (- 1) (heap s ! node)]
                   in case delete_child (h1 ! parent_node) requested of
                        Inl e \<Rightarrow> (Inl e, s\<lparr>heap := h1\<rparr>)
                      | Inr (removed, d) \<Rightarrow> (Inr removed, s\<lparr>heap := h1[parent_node := d]\<rparr>))"

definition touch :: "filesystem \<Rightarrow> string \<Rightarrow> (error + addr) \<times> filesystem" where
  "touch s name =
     (case get_node s name of
        Some match \<Rightarrow> (Inr match, s)
      | None \<Rightarrow>
          let requested = requested_of name;
              parent_path = parent_path_of name
          in case get_directory_or_fail s parent_path of
               Inl e \<Rightarrow> (Inl e, s)
             | Inr parent_node \<Rightarrow>
                 let file_node = length (heap s);
                     h1 = heap s @ [FileNode_init];
                     h2 = h1[parent_node := add_child (h1 ! parent_node) requested file_node]
                 in (Inr file_node, s\<lparr>heap := h2\<rparr>))"

definition write_file :: "filesystem \<Rightarrow> string \<Rightarrow> string \<Rightarrow> (error + addr) \<times> filesystem" where
  "write_file s name new_contents =
     (let match = get_node s name
      in if (case match of Some m \<Rightarrow> is_dir (heap s) m | None \<Rightarrow> False)
         then (Inl (IsADirectory name), s)
         else
           (case (case match of Some m \<Rightarrow> (Inr m, s) | None \<Rightarrow> create_file s name) of
              (Inl e, s1) \<Rightarrow> (Inl e, s1)
            | (Inr file, s1) \<Rightarrow>
                (Inr file, s1\<lparr>heap := (heap s1)[file := write_contents (heap s1 ! file) new_contents]\<rparr>)))"

subsection \<open>find\<close>

text \<open>
  The search keeps a set \<^verbatim>\<open>visited\<close> of (name, node) pairs, a stack \<^verbatim>\<open>nodes\<close> that is
  popped and pushed at its end, and the dictionary \<^verbatim>\<open>adjacency_map\<close> from a pair to the
  pair it was discovered from. A pair is equal to another when the names are equal and
  the nodes are the same object.
\<close>

text \<open>The inner loop \<^verbatim>\<open>for child in node_obj\<close>.\<close>

fun visit_children ::
  "entry \<Rightarrow> entry list \<Rightarrow> entry set \<times> entry list \<times> (entry \<times> entry) list
    \<Rightarrow> entry set \<times> entry list \<times> (entry \<times> entry) list" where
  "visit_children node [] st = st"
| "visit_children node (child # rest) (visited, nodes, adjacency_map) =
     (if child \<notin> visited then
        visit_children node rest
          (insert child visited, nodes @ [child], AList.update child node adjacency_map)
      else visit_children node rest (visited, nodes, adjacency_map))"

text \<open>All (name, node) pairs held by the child tables of a store.\<close>

definition entries :: "node list \<Rightarrow> entry set" where
  "entries h = (\<Union>n \<in> set h. set (entries_of n))"

lemma entries_of_dir: "isinstance_DirectoryNode n \<Longrightarrow> entries_of n = children n"
  by (cases n) auto

lemma visit_children_mono: "fst st \<subseteq> fst (visit_children node cs st)"
  by (induction node cs st rule: visit_children.induct) auto

lemma visit_children_bound: "fst (visit_children node cs st) \<subseteq> fst st \<union> set cs"
  by (induction node cs st rule: visit_children.induct) auto

lemma visit_children_same:
  "fst (visit_children node cs st) = fst st
    \<Longrightarrow> fst (snd (visit_children node cs st)) = fst (snd st)"
proof (induction node cs st rule: visit_children.induct)
  case (1 node st)
  then show ?case by simp
next
  case (2 node child rest visited nodes adjacency_map)
  show ?case
  proof (cases "child \<in> visited")
    case True
    with 2 show ?thesis by simp
  next
    case False
    have "child \<in> fst (visit_children node rest
            (insert child visited, nodes @ [child], AList.update child node adjacency_map))"
      using visit_children_mono
        [of "(insert child visited, nodes @ [child], AList.update child node adjacency_map)"
            node rest]
      by auto
    with False 2(3) show ?thesis by simp
  qed
qed

text \<open>
  The loop \<^verbatim>\<open>while nodes\<close>. It ends on every store: each round either marks a pair of
  the store as visited or shortens the stack.
\<close>

function find_loop ::
  "node list \<Rightarrow> entry set \<times> entry list \<times> (entry \<times> entry) list \<Rightarrow> (entry \<times> entry) list" where
  "find_loop h (visited, nodes, adjacency_map) =
     (if nodes = [] then adjacency_map
      else
        let node = last nodes;
            nodes' = butlast nodes
        in if is_dir h (snd node) then
             find_loop h
               (visit_children node (children (h ! snd node)) (visited, nodes', adjacency_map))
           else find_loop h (visited, nodes', adjacency_map))"
  by pat_completeness auto
termination
proof (relation "measures [\<lambda>(h, visited, nodes, adj). card (entries h - visited),
                            \<lambda>(h, visited, nodes, adj). length nodes]")
  show "wf (measures [\<lambda>(h, visited, nodes, adj). card (entries h - visited),
                       \<lambda>(h, visited, nodes, adj). length nodes])"
    by simp
next
  fix h :: "node list" and visited :: "entry set" and nodes :: "entry list"
    and adjacency_map :: "(entry \<times> entry) list" and x xa
  assume ne: "nodes \<noteq> []" and x: "x = last nodes" and xa: "xa = butlast nodes"
    and d: "is_dir h (snd x)"
  obtain v' n' a' where
    st': "visit_children x (children (h ! snd x)) (visited, xa, adjacency_map) = (v', n', a')"
    by (cases "visit_children x (children (h ! snd x)) (visited, xa, adjacency_map)") auto
  have fin: "finite (entries h)"
    by (simp add: entries_def)
  have "h ! snd x \<in> set h" and "entries_of (h ! snd x) = children (h ! snd x)"
    using d by (simp_all add: is_dir_def entries_of_dir)
  then have sub: "set (children (h ! snd x)) \<subseteq> entries h"
    unfolding entries_def by force
  have mono: "visited \<subseteq> v'"
    using visit_children_mono [of "(visited, xa, adjacency_map)" x "children (h ! snd x)"] st'
    by simp
  have bound: "v' \<subseteq> visited \<union> entries h"
    using visit_children_bound [of x "children (h ! snd x)" "(visited, xa, adjacency_map)"]
      st' sub
    by auto
  show "((h, visit_children x (children (h ! snd x)) (visited, xa, adjacency_map)),
          h, visited, nodes, adjacency_map)
       \<in> measures [\<lambda>(h, visited, nodes, adj). card (entries h - visited),
                    \<lambda>(h, visited, nodes, adj). length nodes]"
  proof (cases "v' = visited")
    case True
    then have "n' = xa"
      using visit_children_same [of x "children (h ! snd x)" "(visited, xa, adjacency_map)"] st'
      by simp
    with True ne xa show ?thesis
      unfolding st' by simp
  next
    case False
    then obtain e where e: "e \<in> v'" "e \<notin> visited"
      using mono by auto
    then have "e \<in> entries h"
      using bound by auto
    then have "entries h - v' \<subset> entries h - visited"
      using e mono by auto
    then have "card (entries h - v') < card (entries h - visited)"
      using fin by (intro psubset_card_mono) auto
    then show ?thesis
      unfolding st' by simp
  qed
next
  fix h :: "node list" and visited :: "entry set" and nodes :: "entry list"
    and adjacency_map :: "(entry \<times> entry) list" and x xa
  assume "nodes \<noteq> []" "xa = butlast nodes"
  then show "((h, visited, xa, adjacency_map), h, visited, nodes, adjacency_map)
       \<in> measures [\<lambda>(h, visited, nodes, adj). card (entries h - visited),
                    \<lambda>(h, visited, nodes, adj). length nodes]"
    by simp
qed

text \<open>
  The loop \<^verbatim>\<open>while parent in adjacency_map\<close>, which walks from a match back to the
  start of the search. On a dictionary with a cycle it would not return: the value
  \<open>None\<close>.
\<close>

partial_function (option) coalesce_loop ::
  "(entry \<times> entry) list \<Rightarrow> entry \<Rightarrow> string list \<Rightarrow> (entry \<times> string list) option" where
  "coalesce_loop adjacency_map parent path =
     (case map_of adjacency_map parent of
        None \<Rightarrow> Some (parent, path)
      | Some grandparent \<Rightarrow> coalesce_loop adjacency_map grandparent (fst parent # path))"

declare coalesce_loop.simps [code]

text \<open>The body of \<^verbatim>\<open>for match in matches\<close>: the path of one match.\<close>

definition coalesce ::
  "(entry \<times> entry) list \<Rightarrow> string option \<Rightarrow> entry \<Rightarrow> (error + string) option" where
  "coalesce adjacency_map relative_to match =
     (case map_of adjacency_map match of
        None \<Rightarrow> Some (Inl (KeyError (fst match)))
      | Some parent \<Rightarrow>
          (case coalesce_loop adjacency_map parent [fst match] of
             None \<Rightarrow> None
           | Some (start, path) \<Rightarrow>
               let path1 = fst start # path;
                   path2 = (if \<not> falsy relative_to then the relative_to # path1 else path1)
               in Some (Inr (str_join (filter (\<lambda>part. part \<noteq> []) path2)))))"

fun coalesce_all ::
  "(entry \<times> entry) list \<Rightarrow> string option \<Rightarrow> entry list \<Rightarrow> string list
    \<Rightarrow> (error + string list) option" where
  "coalesce_all adjacency_map relative_to [] found_paths = Some (Inr found_paths)"
| "coalesce_all adjacency_map relative_to (match # matches) found_paths =
     (case coalesce adjacency_map relative_to match of
        None \<Rightarrow> None
      | Some (Inl e) \<Rightarrow> Some (Inl e)
      | Some (Inr p) \<Rightarrow> coalesce_all adjacency_map relative_to matches (found_paths @ [p]))"

text \<open>\<^verbatim>\<open>find\<close> reads the state and changes nothing in it.\<close>

definition find_fs :: "filesystem \<Rightarrow> string \<Rightarrow> string option \<Rightarrow> (error + string list) option" where
  "find_fs s name relative_to =
     (case (if \<not> falsy relative_to then get_node_or_fail s (the relative_to)
            else Inr (current s)) of
        Inl e \<Rightarrow> Some (Inl e)
      | Inr starting_node \<Rightarrow>
          let adjacency_map =
                find_loop (heap s) ({([], starting_node)}, [([], starting_node)], []);
              matches = filter (\<lambda>key. fst key = name) (map fst adjacency_map)
          in coalesce_all adjacency_map relative_to matches [])"

subsection \<open>Sequences of operations\<close>

datatype command =
    Cd "string option"
  | Create_file string
  | Cwd
  | Find string "string option"
  | Ls "string option"
  | Ln string string
  | Mkdir string bool
  | Mv string string
  | Read_file string bool
  | Rm string bool
  | Touch string
  | Write_file string string

text \<open>
  The state a call leaves behind, whether it returns or raises. \<^verbatim>\<open>cwd\<close>, \<^verbatim>\<open>find\<close>,
  \<^verbatim>\<open>ls\<close> and \<^verbatim>\<open>read_file\<close> only read the state.
\<close>

fun exec :: "filesystem \<Rightarrow> command \<Rightarrow> filesystem" where
  "exec s (Cd name) = snd (cd s name)"
| "exec s (Create_file name) = snd (create_file s name)"
| "exec s Cwd = s"
| "exec s (Find name relative_to) = s"
| "exec s (Ls name) = s"
| "exec s (Ln target dest) = snd (ln s target dest)"
| "exec s (Mkdir name create_intermediates) = snd (mkdir s name create_intermediates)"
| "exec s (Mv old_name new_name) = snd (mv s old_name new_name)"
| "exec s (Read_file name stream) = s"
| "exec s (Rm name recursive) = snd (rm s name recursive)"
| "exec s (Touch name) = snd (touch s name)"
| "exec s (Write_file name new_contents) = snd (write_file s name new_contents)"

definition run :: "filesystem \<Rightarrow> command list \<Rightarrow> filesystem" where
  "run s cs = foldl exec s cs"

section \<open>Invariants and auxiliary notions\<close>

subsection \<open>Well-formed states\<close>

text \<open>
  What is true of every Python object graph the operations build: an entry or a
  back-reference points to an object of the store, the names of a child table are
  distinct (it is a dictionary), and \<^verbatim>\<open>_meta\<close> holds exactly \<^verbatim>\<open>.\<close> and \<^verbatim>\<open>..\<close>.
  \<open>N\<close> is the size of the store.
\<close>

definition wf_node :: "nat \<Rightarrow> node \<Rightarrow> bool" where
  "wf_node N n =
     ((\<forall>e \<in> set (entries_of n). snd e < N)
      \<and> distinct (map fst (entries_of n))
      \<and> (isinstance_DirectoryNode n \<longrightarrow>
           (\<exists>self parent. meta n = [(THIS_DIR_NAME, self), (PARENT_DIR_NAME, parent)]
              \<and> self < N \<and> parent < N)))"

definition wf_heap :: "node list \<Rightarrow> bool" where
  "wf_heap h = (\<forall>a < length h. wf_node (length h) (h ! a))"

text \<open>
  In a well-formed state the root, the current directory and every node of the chain
  are directories, and the chain is not empty.
\<close>

definition wf :: "filesystem \<Rightarrow> bool" where
  "wf s =
     (wf_heap (heap s)
      \<and> is_dir (heap s) (root s)
      \<and> is_dir (heap s) (current s)
      \<and> path_to_current s \<noteq> []
      \<and> (\<forall>e \<in> set (path_to_current s). is_dir (heap s) (snd e)))"

text \<open>A store grows and its objects keep their class.\<close>

definition ext :: "node list \<Rightarrow> node list \<Rightarrow> bool" where
  "ext h h' =
     (length h \<le> length h'
      \<and> (\<forall>a < length h. isinstance_DirectoryNode (h' ! a) = isinstance_DirectoryNode (h ! a)))"

text \<open>Two states with the same tree: only the chain may differ.\<close>

definition same_tree :: "filesystem \<Rightarrow> filesystem \<Rightarrow> bool" where
  "same_tree s s' = (heap s' = heap s \<and> root s' = root s \<and> current s' = current s)"

subsection \<open>The changes the operations make to the store\<close>

text \<open>
  A new object entered under \<open>name\<close> in the directory \<open>p\<close> (\<^verbatim>\<open>create_file\<close>, \<^verbatim>\<open>touch\<close>,
  \<^verbatim>\<open>mkdir\<close>, \<^verbatim>\<open>_create_tree\<close>).
\<close>

definition insert_new :: "node list \<Rightarrow> addr \<Rightarrow> string \<Rightarrow> node \<Rightarrow> node list" where
  "insert_new h p name new = (h @ [new])[p := add_child ((h @ [new]) ! p) name (length h)]"

text \<open>The state in which \<^verbatim>\<open>mkdir\<close> resolves the parent: after the optional \<^verbatim>\<open>_create_tree\<close>.\<close>

definition after_tree :: "filesystem \<Rightarrow> string \<Rightarrow> bool \<Rightarrow> filesystem" where
  "after_tree s name b = (if b then snd (create_tree s (parent_path_of name)) else s)"

text \<open>The store after \<^verbatim>\<open>ln\<close>: one more link for \<open>t\<close>, entered under \<open>name\<close> in \<open>p\<close>.\<close>

definition link_heap :: "node list \<Rightarrow> addr \<Rightarrow> addr \<Rightarrow> string \<Rightarrow> node list" where
  "link_heap h t p name =
     (h[t := add_links 1 (h ! t)])[p := add_child (h[t := add_links 1 (h ! t)] ! p) name t]"

text \<open>The store after the first step of \<^verbatim>\<open>rm\<close>, and after the first step of \<^verbatim>\<open>mv\<close>.\<close>

definition unlinked :: "node list \<Rightarrow> addr \<Rightarrow> node list" where
  "unlinked h node = h[node := add_links (- 1) (h ! node)]"

definition moved :: "node list \<Rightarrow> addr \<Rightarrow> string \<Rightarrow> addr \<Rightarrow> node list" where
  "moved h np name node = h[np := add_child (h ! np) name node]"

subsection \<open>Paths\<close>



subsection \<open>Reserved names\<close>




subsection \<open>Link counts\<close>

text \<open>
  The number of real entries that refer to the object \<open>a\<close>: in one node, and in all
  directories of the store, attached to the tree or not.
\<close>

definition cnt :: "node \<Rightarrow> addr \<Rightarrow> nat" where
  "cnt n a = count_list (map snd (entries_of n)) a"








section \<open>Properties\<close>

subsection \<open>Basic facts about nodes\<close>


lemma add_links_dir [simp]: "isinstance_DirectoryNode (add_links k n) = isinstance_DirectoryNode n"
  by (cases n) auto

lemma add_links_links [simp]: "links (add_links k n) = links n + k"
  by (cases n) auto

lemma add_links_children [simp]:
  "isinstance_DirectoryNode n \<Longrightarrow> children (add_links k n) = children n"
  by (cases n) auto

lemma add_links_meta [simp]: "isinstance_DirectoryNode n \<Longrightarrow> meta (add_links k n) = meta n"
  by (cases n) auto

subsection \<open>Well-formed stores\<close>

lemma ext_refl [simp]: "ext h h"
  by (simp add: ext_def)

lemma ext_trans: "ext h1 h2 \<Longrightarrow> ext h2 h3 \<Longrightarrow> ext h1 h3"
  by (auto simp: ext_def)

lemma ext_is_dir: "ext h h' \<Longrightarrow> is_dir h a \<Longrightarrow> is_dir h' a"
  by (auto simp: ext_def is_dir_def)

lemma ext_append: "ext h (h @ [x])"
  by (simp add: ext_def nth_append)

lemma ext_update:
  "(a < length h \<Longrightarrow> isinstance_DirectoryNode x = isinstance_DirectoryNode (h ! a)) \<Longrightarrow> ext h (h[a := x])"
  by (cases "a < length h") (auto simp: ext_def nth_list_update list_update_beyond)

lemma wf_node_mono: "wf_node N n \<Longrightarrow> N \<le> M \<Longrightarrow> wf_node M n"
  unfolding wf_node_def by (meson order_less_le_trans)

lemma wf_heap_append:
  assumes "wf_heap h" and "wf_node (Suc (length h)) x"
  shows "wf_heap (h @ [x])"
  unfolding wf_heap_def
proof (intro allI impI)
  fix a assume "a < length (h @ [x])"
  then consider "a < length h" | "a = length h" by fastforce
  then show "wf_node (length (h @ [x])) ((h @ [x]) ! a)"
  proof cases
    case 1
    then have "wf_node (length h) (h ! a)" using assms(1) by (simp add: wf_heap_def)
    then show ?thesis using 1 by (simp add: nth_append wf_node_mono)
  next
    case 2
    then show ?thesis using assms(2) by simp
  qed
qed

lemma wf_heap_update:
  assumes "wf_heap h" and "a < length h \<Longrightarrow> wf_node (length h) x"
  shows "wf_heap (h[a := x])"
  using assms by (cases "a < length h") (auto simp: wf_heap_def nth_list_update list_update_beyond)

lemma wf_heap_nth: "wf_heap h \<Longrightarrow> a < length h \<Longrightarrow> wf_node (length h) (h ! a)"
  by (simp add: wf_heap_def)

lemma wf_node_FileNode_init [simp]: "wf_node N FileNode_init"
  by (simp add: wf_node_def FileNode_init_def)

lemma wf_node_DirectoryNode_init:
  "self < N \<Longrightarrow> p < N \<Longrightarrow> wf_node N (DirectoryNode_init self (Some p))"
  by (simp add: wf_node_def DirectoryNode_init_def)

lemma wf_node_add_child:
  assumes "wf_node N n" and "isinstance_DirectoryNode n" and "c < N"
  shows "wf_node N (add_child n name c)"
proof -
  obtain l m ch where n: "n = DirectoryNode l m ch"
    using assms(2) by (cases n) auto
  have "set (AList.update name c ch) \<subseteq> insert (name, c) (set ch)"
    by (induction ch) auto
  then show ?thesis
    using assms n by (auto simp: wf_node_def distinct_update)
qed

lemma wf_node_delete_child:
  assumes "wf_node N n" and "delete_child n name = Inr (c, d)" and "isinstance_DirectoryNode n"
  shows "wf_node N d"
proof -
  obtain l m ch where n: "n = DirectoryNode l m ch"
    using assms(3) by (cases n) auto
  have "set (AList.delete name ch) \<subseteq> set ch"
    by (auto simp: AList.delete_eq)
  then show ?thesis
    using assms n by (auto simp: wf_node_def distinct_delete split: option.splits)
qed

lemma delete_child_dir:
  "delete_child n name = Inr (c, d) \<Longrightarrow> isinstance_DirectoryNode n \<Longrightarrow> isinstance_DirectoryNode d"
  by (cases n) (auto split: option.splits)

lemma add_child_is_dir [simp]:
  "isinstance_DirectoryNode n \<Longrightarrow> isinstance_DirectoryNode (add_child n name c)"
  by (cases n) auto

lemma wf_node_add_links: "wf_node N n \<Longrightarrow> wf_node N (add_links k n)"
  by (cases n) (auto simp: wf_node_def)

lemma wf_node_write_contents:
  "wf_node N n \<Longrightarrow> \<not> isinstance_DirectoryNode n \<Longrightarrow> wf_node N (write_contents n c)"
  by (cases n) (auto simp: wf_node_def)

lemma write_contents_dir [simp]:
  "\<not> isinstance_DirectoryNode n \<Longrightarrow> \<not> isinstance_DirectoryNode (write_contents n c)"
  by (cases n) auto


text \<open>On a well-formed store \<^verbatim>\<open>find_child\<close> and \<^verbatim>\<open>_get_node\<close> return objects of the store.\<close>

lemma find_child_valid:
  assumes "wf_node N n" and "isinstance_DirectoryNode n" and "find_child n name = Some c"
  shows "c < N"
proof -
  obtain l m ch where n: "n = DirectoryNode l m ch"
    using assms(2) by (cases n) auto
  show ?thesis
  proof (cases "map_of ch name")
    case None
    then have "map_of m name = Some c" using assms(3) n by simp
    moreover obtain self parent where "m = [(THIS_DIR_NAME, self), (PARENT_DIR_NAME, parent)]" "self < N" "parent < N"
      using assms(1) n by (auto simp: wf_node_def)
    ultimately show ?thesis by (auto split: if_splits)
  next
    case (Some x)
    then have "x = c" using assms(3) n by simp
    then have "(name, c) \<in> set ch" using Some by (simp add: map_of_SomeD)
    then show ?thesis using assms(1) n by (auto simp: wf_node_def)
  qed
qed

lemma get_node_loop_valid:
  "wf_heap h \<Longrightarrow> (\<forall>a. node = Some a \<longrightarrow> a < length h) \<Longrightarrow> get_node_loop h node parts = Some b \<Longrightarrow> b < length h"
proof (induction h node parts rule: get_node_loop.induct)
  case (1 h node)
  then show ?case by simp
next
  case (2 h node part parts)
  show ?case
  proof (cases node)
    case None
    then show ?thesis using 2 by simp
  next
    case (Some a)
    show ?thesis
    proof (cases "is_dir h a")
      case True
      have "\<forall>c. find_child (h ! a) part = Some c \<longrightarrow> c < length h"
        using True 2(4) find_child_valid [of "length h" "h ! a" part]
        by (auto simp: is_dir_def wf_heap_def)
      then show ?thesis using 2 Some True by simp
    next
      case False
      then show ?thesis using 2 Some by simp
    qed
  qed
qed

lemma get_node_valid:
  assumes "wf s" and "get_node s name = Some b"
  shows "b < length (heap s)"
proof (cases "name = []")
  case True
  then show ?thesis using assms by (simp add: get_node_def wf_def is_dir_def)
next
  case False
  have "root s < length (heap s)" "current s < length (heap s)"
    using assms(1) by (simp_all add: wf_def is_dir_def)
  then show ?thesis
    using assms False get_node_loop_valid [of "heap s" _ _ b]
    by (auto simp: get_node_def wf_def Let_def split: if_splits)
qed

lemma wf_heapD: "wf s \<Longrightarrow> wf_heap (heap s)"
  by (simp add: wf_def)

lemma wf_state_heap:
  "wf s \<Longrightarrow> wf_heap h' \<Longrightarrow> ext (heap s) h' \<Longrightarrow> wf (s\<lparr>heap := h'\<rparr>)"
  by (auto simp: wf_def intro: ext_is_dir)

lemma get_directory_or_fail_dir:
  "get_directory_or_fail s name = Inr p \<Longrightarrow> is_dir (heap s) p"
  by (auto simp: get_directory_or_fail_def split: sum.splits if_splits)


lemma insert_new_wf:
  assumes "wf_heap h" and "is_dir h p" and "wf_node (Suc (length h)) new"
  shows "wf_heap (insert_new h p name new)"
proof -
  have p: "p < length h" "isinstance_DirectoryNode (h ! p)"
    using assms(2) by (simp_all add: is_dir_def)
  have 1: "wf_heap (h @ [new])"
    using assms(1,3) by (rule wf_heap_append)
  have "wf_node (length h) (h ! p)"
    using assms(1) p by (simp add: wf_heap_def)
  then have "wf_node (Suc (length h)) (h ! p)"
    by (rule wf_node_mono) simp
  then have "wf_node (length (h @ [new])) (add_child ((h @ [new]) ! p) name (length h))"
    using p by (simp add: nth_append wf_node_add_child)
  with 1 show ?thesis
    unfolding insert_new_def by (rule wf_heap_update)
qed

lemma insert_new_ext:
  assumes "is_dir h p"
  shows "ext h (insert_new h p name new)"
proof -
  have p: "p < length h" "isinstance_DirectoryNode (h ! p)"
    using assms by (simp_all add: is_dir_def)
  have "ext (h @ [new]) ((h @ [new])[p := add_child ((h @ [new]) ! p) name (length h)])"
    using p by (intro ext_update) (simp add: nth_append)
  with ext_append show ?thesis
    unfolding insert_new_def by (rule ext_trans)
qed

subsection \<open>Case analyses of the operations\<close>

lemma create_file_cases:
  obtains (fail) e where "create_file s name = (Inl e, s)"
  | (ok) p where "get_node s name = None"
      and "get_directory_or_fail s (parent_path_of name) = Inr p"
      and "create_file s name =
            (Inr (length (heap s)),
             s\<lparr>heap := insert_new (heap s) p (requested_of name) FileNode_init\<rparr>)"
proof (cases "fail_if_node_exists s name")
  case (Inl e)
  then have "create_file s name = (Inl e, s)"
    by (simp add: create_file_def)
  then show ?thesis by (rule fail)
next
  case (Inr u)
  then have none: "get_node s name = None"
    by (auto simp: fail_if_node_exists_def split: option.splits)
  show ?thesis
  proof (cases "get_directory_or_fail s (parent_path_of name)")
    case (Inl e)
    then have "create_file s name = (Inl e, s)"
      using Inr by (simp add: create_file_def Let_def)
    then show ?thesis by (rule fail)
  next
    case p: (Inr p)
    then have "create_file s name =
            (Inr (length (heap s)),
             s\<lparr>heap := insert_new (heap s) p (requested_of name) FileNode_init\<rparr>)"
      using Inr by (simp add: create_file_def Let_def insert_new_def)
    with none p show ?thesis by (rule ok)
  qed
qed

lemma touch_cases:
  obtains (existing) m where "get_node s name = Some m" and "touch s name = (Inr m, s)"
  | (fail) e where "touch s name = (Inl e, s)"
  | (ok) p where "get_node s name = None"
      and "get_directory_or_fail s (parent_path_of name) = Inr p"
      and "touch s name =
            (Inr (length (heap s)),
             s\<lparr>heap := insert_new (heap s) p (requested_of name) FileNode_init\<rparr>)"
proof (cases "get_node s name")
  case (Some m)
  then have "touch s name = (Inr m, s)"
    by (simp add: touch_def)
  with Some show ?thesis by (rule existing)
next
  case None
  show ?thesis
  proof (cases "get_directory_or_fail s (parent_path_of name)")
    case (Inl e)
    then have "touch s name = (Inl e, s)"
      using None by (simp add: touch_def Let_def)
    then show ?thesis by (rule fail)
  next
    case p: (Inr p)
    then have "touch s name =
            (Inr (length (heap s)),
             s\<lparr>heap := insert_new (heap s) p (requested_of name) FileNode_init\<rparr>)"
      using None by (simp add: touch_def Let_def insert_new_def)
    with None p show ?thesis by (rule ok)
  qed
qed

lemma mkdir_cases:
  obtains (exists) e where "get_node s name \<noteq> None" and "mkdir s name b = (Inl e, s)"
  | (fail) e where "get_node s name = None" and "mkdir s name b = (Inl e, after_tree s name b)"
  | (ok) p where "get_node s name = None"
      and "get_directory_or_fail (after_tree s name b) (parent_path_of name) = Inr p"
      and "mkdir s name b =
            (Inr (length (heap (after_tree s name b))),
             (after_tree s name b)\<lparr>heap :=
                insert_new (heap (after_tree s name b)) p (requested_of name)
                  (DirectoryNode_init (length (heap (after_tree s name b))) (Some p))\<rparr>)"
proof (cases "get_node s name")
  case (Some m)
  then have "mkdir s name b = (Inl (FileExists name), s)"
    by (simp add: mkdir_def fail_if_node_exists_def)
  with Some show ?thesis by (auto intro: exists)
next
  case None
  then have f: "fail_if_node_exists s name = Inr ()"
    by (simp add: fail_if_node_exists_def)
  obtain r s1 where ct: "(if b then create_tree s (parent_path_of name) else (Inr (), s)) = (r, s1)"
    by (cases "if b then create_tree s (parent_path_of name) else (Inr (), s)") auto
  then have s1: "s1 = after_tree s name b"
    by (auto simp: after_tree_def split: if_splits)
  show ?thesis
  proof (cases r)
    case (Inl e)
    then have "mkdir s name b = (Inl e, after_tree s name b)"
      using f ct s1 by (simp add: mkdir_def Let_def)
    with None show ?thesis by (rule fail)
  next
    case (Inr u)
    show ?thesis
    proof (cases "get_directory_or_fail s1 (parent_path_of name)")
      case (Inl e)
      then have "mkdir s name b = (Inl e, after_tree s name b)"
        using f ct s1 Inr by (simp add: mkdir_def Let_def)
      with None show ?thesis by (rule fail)
    next
      case p: (Inr p)
      then have "mkdir s name b =
            (Inr (length (heap (after_tree s name b))),
             (after_tree s name b)\<lparr>heap :=
                insert_new (heap (after_tree s name b)) p (requested_of name)
                  (DirectoryNode_init (length (heap (after_tree s name b))) (Some p))\<rparr>)"
        using f ct s1 Inr by (simp add: mkdir_def Let_def insert_new_def)
      with None p s1 show ?thesis by (auto intro: ok)
    qed
  qed
qed

lemma write_file_cases:
  obtains (isdir) m where "get_node s name = Some m" and "is_dir (heap s) m"
      and "write_file s name c = (Inl (IsADirectory name), s)"
  | (existing) m where "get_node s name = Some m" and "\<not> is_dir (heap s) m"
      and "write_file s name c =
            (Inr m, s\<lparr>heap := (heap s)[m := write_contents (heap s ! m) c]\<rparr>)"
  | (fail) e where "get_node s name = None" and "write_file s name c = (Inl e, s)"
  | (ok) p where "get_node s name = None"
      and "get_directory_or_fail s (parent_path_of name) = Inr p"
      and "write_file s name c =
            (Inr (length (heap s)),
             s\<lparr>heap := (insert_new (heap s) p (requested_of name) FileNode_init)
                          [length (heap s) := FileNode 1 c]\<rparr>)"
proof (cases "get_node s name")
  case (Some m)
  show ?thesis
  proof (cases "is_dir (heap s) m")
    case True
    then have "write_file s name c = (Inl (IsADirectory name), s)"
      using Some by (simp add: write_file_def)
    with Some True show ?thesis by (rule isdir)
  next
    case False
    then have "write_file s name c =
            (Inr m, s\<lparr>heap := (heap s)[m := write_contents (heap s ! m) c]\<rparr>)"
      using Some by (simp add: write_file_def)
    with Some False show ?thesis by (rule existing)
  qed
next
  case None
  show ?thesis
  proof (cases rule: create_file_cases [of s name])
    case (fail e)
    then have "write_file s name c = (Inl e, s)"
      using None by (simp add: write_file_def)
    with None show ?thesis by (rule that(3))
  next
    case (ok p)
    have p: "p < length (heap s)"
      using ok(2) by (auto dest: get_directory_or_fail_dir simp: is_dir_def)
    then have "insert_new (heap s) p (requested_of name) FileNode_init ! length (heap s)
        = FileNode_init"
      by (simp add: insert_new_def nth_list_update)
    then have "write_file s name c =
            (Inr (length (heap s)),
             s\<lparr>heap := (insert_new (heap s) p (requested_of name) FileNode_init)
                          [length (heap s) := FileNode 1 c]\<rparr>)"
      using None ok(3) by (simp add: write_file_def FileNode_init_def)
    with None ok(2) show ?thesis by (rule that(4))
  qed
qed

lemma ln_cases:
  obtains (fail) e where "ln s target dest = (Inl e, s)"
  | (ok) t p where "get_node s target = Some t"
      and "get_directory_or_fail s (parent_path_of dest) = Inr p"
      and "ln s target dest = (Inr t, s\<lparr>heap := link_heap (heap s) t p (requested_of dest)\<rparr>)"
proof (cases "get_node s target")
  case None
  then have "ln s target dest = (Inl (NoSuchFileOrDirectory target), s)"
    by (simp add: ln_def get_node_or_fail_def)
  then show ?thesis by (rule fail)
next
  case (Some t)
  show ?thesis
  proof (cases "get_directory_or_fail s (parent_path_of dest)")
    case (Inl e)
    then have "ln s target dest = (Inl e, s)"
      using Some by (simp add: ln_def get_node_or_fail_def Let_def)
    then show ?thesis by (rule fail)
  next
    case (Inr p)
    then have "ln s target dest = (Inr t, s\<lparr>heap := link_heap (heap s) t p (requested_of dest)\<rparr>)"
      using Some by (simp add: ln_def get_node_or_fail_def Let_def link_heap_def)
    with Some Inr show ?thesis by (rule ok)
  qed
qed

lemma rm_cases:
  obtains (fail) e where "rm s name recursive = (Inl e, s)"
  | (keyerror) node p e where "get_node s name = Some node"
      and "get_directory_or_fail s (parent_path_of name) = Inr p"
      and "delete_child (unlinked (heap s) node ! p) (requested_of name) = Inl e"
      and "rm s name recursive = (Inl e, s\<lparr>heap := unlinked (heap s) node\<rparr>)"
  | (ok) node p removed d where "get_node s name = Some node"
      and "get_directory_or_fail s (parent_path_of name) = Inr p"
      and "delete_child (unlinked (heap s) node ! p) (requested_of name) = Inr (removed, d)"
      and "rm s name recursive = (Inr removed, s\<lparr>heap := (unlinked (heap s) node)[p := d]\<rparr>)"
proof (cases "get_node s name")
  case None
  then have "rm s name recursive = (Inl (NoSuchFileOrDirectory name), s)"
    by (simp add: rm_def get_node_or_fail_def)
  then show ?thesis by (rule fail)
next
  case (Some node)
  show ?thesis
  proof (cases "is_dir (heap s) node \<and> \<not> recursive")
    case True
    then have "rm s name recursive = (Inl (IsADirectory name), s)"
      using Some by (simp add: rm_def get_node_or_fail_def)
    then show ?thesis by (rule fail)
  next
    case False
    show ?thesis
    proof (cases "get_directory_or_fail s (parent_path_of name)")
      case (Inl e)
      then have "rm s name recursive = (Inl e, s)"
        using Some False by (auto simp: rm_def get_node_or_fail_def Let_def)
      then show ?thesis by (rule fail)
    next
      case p: (Inr p)
      show ?thesis
      proof (cases "delete_child (unlinked (heap s) node ! p) (requested_of name)")
        case (Inl e)
        then have "rm s name recursive = (Inl e, s\<lparr>heap := unlinked (heap s) node\<rparr>)"
          using Some False p by (auto simp: rm_def get_node_or_fail_def Let_def unlinked_def)
        with Some p Inl show ?thesis by (rule keyerror)
      next
        case (Inr rd)
        obtain removed d where rd: "rd = (removed, d)" by (cases rd)
        then have "rm s name recursive = (Inr removed, s\<lparr>heap := (unlinked (heap s) node)[p := d]\<rparr>)"
          using Some False p Inr by (auto simp: rm_def get_node_or_fail_def Let_def unlinked_def)
        with Some p Inr rd show ?thesis by (auto intro: ok)
      qed
    qed
  qed
qed

subsection \<open>Path resolution and the session\<close>

lemma resolve_loop_chain:
  "path \<noteq> [] \<Longrightarrow> \<forall>e \<in> set path. is_dir h (snd e)
    \<Longrightarrow> resolve_loop h name node path parts = (r, path')
    \<Longrightarrow> path' \<noteq> [] \<and> (\<forall>e \<in> set path'. is_dir h (snd e))"
proof (induction h name node path parts rule: resolve_loop.induct)
  case (1 h name node path)
  then show ?case by simp
next
  case (2 h name node path part parts)
  show ?case
  proof (cases "find_child (h ! node) part")
    case None
    then show ?thesis using 2(5-7) by simp
  next
    case (Some next_node)
    show ?thesis
    proof (cases "is_dir h next_node")
      case False
      then show ?thesis using 2(4)[OF Some False] 2(5-7) Some by simp
    next
      case True
      consider (parent) "part = PARENT_DIR_NAME" | (self) "part \<noteq> PARENT_DIR_NAME" "part = THIS_DIR_NAME"
        | (other) "part \<noteq> PARENT_DIR_NAME" "part \<noteq> THIS_DIR_NAME" by blast
      then show ?thesis
      proof cases
        case parent
        have ne: "(if 1 < length path then butlast path else path) \<noteq> []"
          using 2(5) by (cases path rule: rev_cases) auto
        have dirs: "\<forall>e \<in> set (if 1 < length path then butlast path else path). is_dir h (snd e)"
          using 2(6) by (auto dest: in_set_butlastD)
        show ?thesis
          using 2(1)[OF Some True parent ne dirs] 2(7) Some True parent by simp
      next
        case self
        show ?thesis
          using 2(3)[OF Some True self(1)] self 2(5-7) Some True by simp
      next
        case other
        have ne: "path @ [(part, next_node)] \<noteq> []" by simp
        have dirs: "\<forall>e \<in> set (path @ [(part, next_node)]). is_dir h (snd e)"
          using 2(6) True by auto
        show ?thesis
          using 2(2)[OF Some True other(1) other(2) ne dirs] 2(7) Some True other by simp
      qed
    qed
  qed
qed

lemma resolve_path_wf:
  assumes "wf s" and "resolve_path s name = (r, s')"
  shows "wf s' \<and> same_tree s s'
    \<and> (\<forall>c. r = Inr c \<longrightarrow> deref s' c \<noteq> [] \<and> (\<forall>e \<in> set (deref s' c). is_dir (heap s) (snd e)))"
proof (cases "name = []")
  case True
  then show ?thesis using assms by (auto simp: resolve_path_def same_tree_def wf_def)
next
  case False
  show ?thesis
  proof (cases "startswith_sep name")
    case True
    obtain e path where rl: "resolve_loop (heap s) (tl name) (root s) [([], root s)] (str_split (tl name)) = (e, path)"
      by (cases "resolve_loop (heap s) (tl name) (root s) [([], root s)] (str_split (tl name))") auto
    have "path \<noteq> [] \<and> (\<forall>e \<in> set path. is_dir (heap s) (snd e))"
      using resolve_loop_chain [OF _ _ rl] assms(1) by (simp add: wf_def)
    then show ?thesis
      using assms False True rl
      by (cases e) (auto simp: resolve_path_def same_tree_def Let_def)
  next
    case rel: False
    obtain e path where rl: "resolve_loop (heap s) name (current s) (path_to_current s) (str_split name) = (e, path)"
      by (cases "resolve_loop (heap s) name (current s) (path_to_current s) (str_split name)") auto
    have "path \<noteq> [] \<and> (\<forall>e \<in> set path. is_dir (heap s) (snd e))"
      using resolve_loop_chain [OF _ _ rl] assms(1) by (simp add: wf_def)
    moreover have "s' = s\<lparr>path_to_current := path\<rparr>"
      using assms(2) False rel rl by (cases e) (auto simp: resolve_path_def Let_def)
    moreover have "r = Inr Session \<or> (\<exists>x. r = Inl x)"
      using assms(2) False rel rl by (cases e) (auto simp: resolve_path_def Let_def)
    ultimately show ?thesis
      using assms(1) by (auto simp: same_tree_def wf_def)
  qed
qed

lemma wf_cd: "wf s \<Longrightarrow> wf (snd (cd s name)) \<and> heap (snd (cd s name)) = heap s \<and> root (snd (cd s name)) = root s"
proof (cases "falsy name")
  case True
  assume "wf s"
  then show ?thesis using True by (simp add: cd_def wf_def)
next
  case False
  assume wf: "wf s"
  show ?thesis
  proof (cases "get_node_or_fail s (the name)")
    case (Inl e)
    then show ?thesis using False wf by (simp add: cd_def Let_def)
  next
    case (Inr node)
    show ?thesis
    proof (cases "is_dir (heap s) node")
      case nd: False
      then show ?thesis using False wf Inr by (simp add: cd_def Let_def)
    next
      case True
      obtain r s1 where rp: "resolve_path s (the name) = (r, s1)"
        by (cases "resolve_path s (the name)") auto
      note rw = resolve_path_wf [OF wf rp]
      show ?thesis
      proof (cases r)
        case (Inl e)
        then show ?thesis using False Inr True rp rw
          by (simp add: cd_def Let_def same_tree_def)
      next
        case c: (Inr c)
        then have ne: "deref s1 c \<noteq> []" and dirs: "\<forall>e \<in> set (deref s1 c). is_dir (heap s) (snd e)"
          using rw by auto
        have "is_dir (heap s) (snd (last (deref s1 c)))"
          using ne dirs by simp
        moreover have "heap s1 = heap s" "root s1 = root s" "wf s1"
          using rw by (simp_all add: same_tree_def)
        ultimately show ?thesis using False Inr True rp c ne dirs
          by (auto simp: cd_def Let_def wf_def)
      qed
    qed
  qed
qed

lemma mv_cases [consumes 1, case_names fail session keyerror ok]:
  assumes "wf s"
  obtains (fail) e where "mv s old_name new_name = (Inl e, s)"
  | (session) r s2 where "mv s old_name new_name = (r, s2)" and "same_tree s s2" and "wf s2"
  | (keyerror) node op np e s2 where "get_node s old_name = Some node"
      and "get_directory_or_fail s (parent_path_of old_name) = Inr op"
      and "get_directory_or_fail s (parent_path_of new_name) = Inr np"
      and "same_tree s s2" and "wf s2"
      and "delete_child (moved (heap s) np (requested_of new_name) node ! op) (requested_of old_name)
            = Inl e"
      and "mv s old_name new_name =
            (Inl e, s2\<lparr>heap := moved (heap s) np (requested_of new_name) node\<rparr>)"
  | (ok) node op np removed d s2 where "get_node s old_name = Some node"
      and "get_directory_or_fail s (parent_path_of old_name) = Inr op"
      and "get_directory_or_fail s (parent_path_of new_name) = Inr np"
      and "same_tree s s2" and "wf s2"
      and "delete_child (moved (heap s) np (requested_of new_name) node ! op) (requested_of old_name)
            = Inr (removed, d)"
      and "mv s old_name new_name =
            (Inr node, s2\<lparr>heap := (moved (heap s) np (requested_of new_name) node)[op := d]\<rparr>)"
proof (cases "get_node s old_name")
  case None
  then have "mv s old_name new_name = (Inl (NoSuchFileOrDirectory old_name), s)"
    by (simp add: mv_def get_node_or_fail_def)
  then show ?thesis by (rule fail)
next
  case (Some node)
  then have g: "get_node_or_fail s old_name = Inr node"
    by (simp add: get_node_or_fail_def)
  show ?thesis
  proof (cases "get_directory_or_fail s (parent_path_of old_name)")
    case (Inl e)
    then have "mv s old_name new_name = (Inl e, s)"
      using g by (simp add: mv_def Let_def)
    then show ?thesis by (rule fail)
  next
    case op: (Inr op)
    show ?thesis
    proof (cases "get_directory_or_fail s (parent_path_of new_name)")
      case (Inl e)
      then have "mv s old_name new_name = (Inl e, s)"
        using g op by (simp add: mv_def Let_def)
      then show ?thesis by (rule fail)
    next
      case np: (Inr np)
      obtain r1 s1 where r1: "resolve_path s (parent_path_of new_name) = (r1, s1)"
        by (cases "resolve_path s (parent_path_of new_name)") auto
      note w1 = resolve_path_wf [OF assms r1]
      show ?thesis
      proof (cases r1)
        case (Inl e)
        then have "mv s old_name new_name = (Inl e, s1)"
          using g op np r1 by (simp add: mv_def Let_def)
        then show ?thesis using w1 by (auto intro: session)
      next
        case c1: (Inr c1)
        obtain r2 s2 where r2: "resolve_path s1 (parent_path_of old_name) = (r2, s2)"
          by (cases "resolve_path s1 (parent_path_of old_name)") auto
        have wf1: "wf s1" using w1 by simp
        note w2 = resolve_path_wf [OF wf1 r2]
        have st: "same_tree s s2" and wf2: "wf s2"
          using w1 w2 by (auto simp: same_tree_def)
        have h2: "heap s2 = heap s"
          using st by (simp add: same_tree_def)
        show ?thesis
        proof (cases r2)
          case (Inl e)
          then have "mv s old_name new_name = (Inl e, s2)"
            using g op np r1 c1 r2 by (simp add: mv_def Let_def)
          then show ?thesis using st wf2 by (auto intro: session)
        next
          case c2: (Inr c2)
          show ?thesis
          proof (cases "deref s2 c1 = deref s2 c2 \<and> requested_of new_name = requested_of old_name")
            case True
            then have "mv s old_name new_name = (Inr node, s2)"
              using g op np r1 c1 r2 c2 by (simp add: mv_def Let_def)
            then show ?thesis using st wf2 by (auto intro: session)
          next
            case False
            show ?thesis
            proof (cases "delete_child (moved (heap s) np (requested_of new_name) node ! op)
                            (requested_of old_name)")
              case (Inl e)
              then have "mv s old_name new_name =
                  (Inl e, s2\<lparr>heap := moved (heap s) np (requested_of new_name) node\<rparr>)"
                using g op np r1 c1 r2 c2 False h2
                by (auto simp: mv_def Let_def moved_def)
              with Some op np st wf2 Inl show ?thesis by (rule keyerror)
            next
              case (Inr rd)
              obtain removed d where rd: "rd = (removed, d)" by (cases rd)
              then have "mv s old_name new_name =
                  (Inr node, s2\<lparr>heap := (moved (heap s) np (requested_of new_name) node)[op := d]\<rparr>)"
                using g op np r1 c1 r2 c2 False h2 Inr
                by (auto simp: mv_def Let_def moved_def)
              with Some op np st wf2 Inr rd show ?thesis by (auto intro: ok)
            qed
          qed
        qed
      qed
    qed
  qed
qed

subsection \<open>Creating a tree\<close>

lemma not_file_is_dir: "a < length h \<Longrightarrow> \<not> is_file h a \<Longrightarrow> is_dir h a"
  by (cases "h ! a") (auto simp: is_file_def is_dir_def)

lemma create_tree_loop_wf:
  "wf_heap h \<Longrightarrow> node < length h \<Longrightarrow> create_tree_loop h node parts = (r, h')
    \<Longrightarrow> wf_heap h' \<and> ext h h'"
proof (induction h node parts rule: create_tree_loop.induct)
  case (1 h node)
  then show ?case by simp
next
  case (2 h node name parts)
  show ?case
  proof (cases "is_file h node")
    case True
    then show ?thesis using 2(3-5) by simp
  next
    case False
    then have d: "is_dir h node"
      using 2(4) by (simp add: not_file_is_dir)
    show ?thesis
    proof (cases "find_child (h ! node) name")
      case (Some existing_node)
      have "existing_node < length h"
        using find_child_valid [OF _ _ Some, of "length h"] d 2(3)
        by (simp add: is_dir_def wf_heap_def)
      then show ?thesis
        using 2(2)[OF False Some 2(3)] 2(5) False Some by simp
    next
      case None
      let ?h2 = "insert_new h node name (DirectoryNode_init (length h) (Some node))"
      have w: "wf_heap ?h2"
        using 2(3) d 2(4) by (intro insert_new_wf wf_node_DirectoryNode_init) simp_all
      have e: "ext h ?h2"
        using d by (rule insert_new_ext)
      have l: "length h < length ?h2"
        by (simp add: insert_new_def)
      have "create_tree_loop ?h2 (length h) parts = (r, h')"
        using 2(5) False None by (simp add: Let_def insert_new_def)
      then have "wf_heap h' \<and> ext ?h2 h'"
        using 2(1)[OF False None refl refl refl] w l
        by (simp add: insert_new_def)
      then show ?thesis using e ext_trans by blast
    qed
  qed
qed

lemma create_tree_wf:
  assumes "wf s"
  shows "wf (snd (create_tree s name)) \<and> ext (heap s) (heap (snd (create_tree s name)))
    \<and> root (snd (create_tree s name)) = root s"
proof -
  let ?node = "if startswith_sep name then root s else current s"
  let ?parts = "str_split (if startswith_sep name then tl name else name)"
  obtain r h' where l: "create_tree_loop (heap s) ?node ?parts = (r, h')"
    by (cases "create_tree_loop (heap s) ?node ?parts") auto
  have "?node < length (heap s)"
    using assms by (simp add: wf_def is_dir_def)
  then have w: "wf_heap h' \<and> ext (heap s) h'"
    using create_tree_loop_wf [OF _ _ l] assms by (simp add: wf_heapD)
  have s': "snd (create_tree s name) = s\<lparr>heap := h'\<rparr>"
    using l by (cases r) (simp_all add: create_tree_def Let_def)
  show ?thesis
    unfolding s' using w assms by (simp add: wf_state_heap)
qed

subsection \<open>Every operation keeps the state well formed\<close>

lemma wf_create_file: "wf s \<Longrightarrow> wf (snd (create_file s name))"
  by (cases rule: create_file_cases [of s name])
    (auto intro!: wf_state_heap insert_new_wf insert_new_ext
      dest: get_directory_or_fail_dir simp: wf_heapD)

lemma wf_touch: "wf s \<Longrightarrow> wf (snd (touch s name))"
  by (cases rule: touch_cases [of s name])
    (auto intro!: wf_state_heap insert_new_wf insert_new_ext
      dest: get_directory_or_fail_dir simp: wf_heapD)

lemma wf_after_tree: "wf s \<Longrightarrow> wf (after_tree s name b)"
  by (simp add: after_tree_def create_tree_wf)

lemma wf_mkdir:
  assumes "wf s"
  shows "wf (snd (mkdir s name b))"
proof (cases rule: mkdir_cases [of s name b])
  case (exists e)
  then show ?thesis using assms by simp
next
  case (fail e)
  then show ?thesis using assms by (simp add: wf_after_tree)
next
  case (ok p)
  let ?s1 = "after_tree s name b"
  have w: "wf ?s1" using assms by (rule wf_after_tree)
  have d: "is_dir (heap ?s1) p" using ok(2) by (rule get_directory_or_fail_dir)
  then have "p < length (heap ?s1)" by (simp add: is_dir_def)
  then have "wf_node (Suc (length (heap ?s1))) (DirectoryNode_init (length (heap ?s1)) (Some p))"
    by (intro wf_node_DirectoryNode_init) simp_all
  then show ?thesis
    using ok(3) w d by (auto intro!: wf_state_heap insert_new_wf insert_new_ext simp: wf_heapD)
qed

lemma wf_write_file:
  assumes "wf s"
  shows "wf (snd (write_file s name c))"
proof (cases rule: write_file_cases [of s name c])
  case (isdir m)
  then show ?thesis using assms by simp
next
  case (existing m)
  have "m < length (heap s)"
    using assms existing(1) by (rule get_node_valid)
  then have nd: "\<not> isinstance_DirectoryNode (heap s ! m)"
    using existing(2) by (simp add: is_dir_def)
  have "wf_heap ((heap s)[m := write_contents (heap s ! m) c])"
    using assms nd by (intro wf_heap_update wf_node_write_contents wf_heap_nth) (simp_all add: wf_heapD)
  moreover have "ext (heap s) ((heap s)[m := write_contents (heap s ! m) c])"
    using nd by (intro ext_update) simp
  ultimately show ?thesis
    using existing(3) assms by (simp add: wf_state_heap)
next
  case (fail e)
  then show ?thesis using assms by simp
next
  case (ok p)
  let ?h1 = "insert_new (heap s) p (requested_of name) FileNode_init"
  have d: "is_dir (heap s) p" using ok(2) by (rule get_directory_or_fail_dir)
  have w1: "wf_heap ?h1" and e1: "ext (heap s) ?h1"
    using assms d by (auto intro!: insert_new_wf insert_new_ext simp: wf_heapD)
  have n: "?h1 ! length (heap s) = FileNode_init"
    using d by (simp add: insert_new_def is_dir_def nth_list_update)
  have "wf_heap (?h1[length (heap s) := FileNode 1 c])"
    using w1 by (intro wf_heap_update) (simp_all add: wf_node_def)
  moreover have "ext ?h1 (?h1[length (heap s) := FileNode 1 c])"
    using n by (intro ext_update) (simp add: FileNode_init_def)
  ultimately show ?thesis
    using ok(3) assms e1 by (auto intro!: wf_state_heap intro: ext_trans)
qed

lemma link_heap_wf:
  assumes "wf_heap h" and "t < length h" and "is_dir h p"
  shows "wf_heap (link_heap h t p name) \<and> ext h (link_heap h t p name)"
proof -
  let ?h1 = "h[t := add_links 1 (h ! t)]"
  have p: "p < length h" "isinstance_DirectoryNode (h ! p)"
    using assms(3) by (simp_all add: is_dir_def)
  have w1: "wf_heap ?h1"
    using assms(1,2) by (intro wf_heap_update wf_node_add_links wf_heap_nth)
  have e1: "ext h ?h1"
    by (intro ext_update) simp
  have d1: "isinstance_DirectoryNode (?h1 ! p)"
    using e1 p by (simp add: ext_def)
  have "wf_node (length ?h1) (add_child (?h1 ! p) name t)"
    using w1 p d1 assms(2) by (intro wf_node_add_child wf_heap_nth) simp_all
  then have "wf_heap (?h1[p := add_child (?h1 ! p) name t])"
    by (intro wf_heap_update [OF w1])
  moreover have "ext ?h1 (?h1[p := add_child (?h1 ! p) name t])"
    using d1 by (intro ext_update) simp
  ultimately show ?thesis
    using e1 unfolding link_heap_def by (auto intro: ext_trans)
qed

lemma wf_ln:
  assumes "wf s"
  shows "wf (snd (ln s target dest))"
proof (cases rule: ln_cases [of s target dest])
  case (fail e)
  then show ?thesis using assms by simp
next
  case (ok t p)
  have "t < length (heap s)" using assms ok(1) by (rule get_node_valid)
  then show ?thesis
    using ok(2,3) assms link_heap_wf [of "heap s" t p]
    by (auto intro!: wf_state_heap dest: get_directory_or_fail_dir simp: wf_heapD)
qed

lemma unlinked_wf: "wf_heap h \<Longrightarrow> wf_heap (unlinked h node) \<and> ext h (unlinked h node)"
  unfolding unlinked_def
  by (auto intro!: wf_heap_update wf_node_add_links wf_heap_nth ext_update)

lemma delete_wf:
  assumes "wf_heap h" and "is_dir h p" and "delete_child (h ! p) name = Inr (removed, d)"
  shows "wf_heap (h[p := d]) \<and> ext h (h[p := d])"
proof -
  have p: "p < length h" "isinstance_DirectoryNode (h ! p)"
    using assms(2) by (simp_all add: is_dir_def)
  have "wf_node (length h) d"
    using wf_node_delete_child [OF wf_heap_nth [OF assms(1) p(1)] assms(3) p(2)] .
  moreover have "isinstance_DirectoryNode d"
    using assms(3) p(2) by (rule delete_child_dir)
  ultimately show ?thesis
    using assms(1) p by (auto intro!: wf_heap_update ext_update)
qed

lemma wf_rm:
  assumes "wf s"
  shows "wf (snd (rm s name recursive))"
proof (cases rule: rm_cases [of s name recursive])
  case (fail e)
  then show ?thesis using assms by simp
next
  case (keyerror node p e)
  then show ?thesis
    using assms unlinked_wf [of "heap s" node] by (auto intro!: wf_state_heap simp: wf_heapD)
next
  case (ok node p removed d)
  have u: "wf_heap (unlinked (heap s) node)" "ext (heap s) (unlinked (heap s) node)"
    using assms unlinked_wf [of "heap s" node] by (simp_all add: wf_heapD)
  have "is_dir (unlinked (heap s) node) p"
    using ok(2) u(2) by (auto dest: get_directory_or_fail_dir intro: ext_is_dir)
  then have "wf_heap ((unlinked (heap s) node)[p := d])"
      "ext (unlinked (heap s) node) ((unlinked (heap s) node)[p := d])"
    using delete_wf [OF u(1) _ ok(3)] by simp_all
  then show ?thesis
    using ok(4) assms u(2) by (auto intro!: wf_state_heap intro: ext_trans)
qed

lemma moved_wf:
  assumes "wf_heap h" and "node < length h" and "is_dir h np"
  shows "wf_heap (moved h np name node) \<and> ext h (moved h np name node)"
proof -
  have p: "np < length h" "isinstance_DirectoryNode (h ! np)"
    using assms(3) by (simp_all add: is_dir_def)
  have "wf_node (length h) (add_child (h ! np) name node)"
    using assms p by (intro wf_node_add_child wf_heap_nth)
  then show ?thesis
    unfolding moved_def using assms(1) p by (auto intro!: wf_heap_update ext_update)
qed

lemma same_tree_heap: "same_tree s s2 \<Longrightarrow> heap s2 = heap s"
  by (simp add: same_tree_def)

lemma wf_mv:
  assumes "wf s"
  shows "wf (snd (mv s old_name new_name))"
  using assms
proof (cases rule: mv_cases [of s old_name new_name])
  case (fail e)
  then show ?thesis using assms by simp
next
  case (session r s2)
  then show ?thesis by simp
next
  case (keyerror node op np e s2)
  have "node < length (heap s)" using assms keyerror(1) by (rule get_node_valid)
  then have "wf_heap (moved (heap s) np (requested_of new_name) node)"
    "ext (heap s2) (moved (heap s) np (requested_of new_name) node)"
    using moved_wf [of "heap s" node np] assms keyerror(3,4)
    by (auto dest: get_directory_or_fail_dir simp: wf_heapD same_tree_heap)
  then show ?thesis
    using keyerror(5,7) by (simp add: wf_state_heap)
next
  case (ok node op np removed d s2)
  let ?m = "moved (heap s) np (requested_of new_name) node"
  have "node < length (heap s)" using assms ok(1) by (rule get_node_valid)
  then have m: "wf_heap ?m" "ext (heap s) ?m"
    using moved_wf [of "heap s" node np] assms ok(3)
    by (auto dest: get_directory_or_fail_dir simp: wf_heapD)
  have "is_dir ?m op"
    using ok(2) m(2) by (auto dest: get_directory_or_fail_dir intro: ext_is_dir)
  then have "wf_heap (?m[op := d])" "ext ?m (?m[op := d])"
    using delete_wf [OF m(1) _ ok(6)] by simp_all
  then have "wf_heap (?m[op := d])" "ext (heap s2) (?m[op := d])"
    using m(2) ok(4) by (auto intro: ext_trans simp: same_tree_heap)
  then show ?thesis
    using ok(5,7) by (simp add: wf_state_heap)
qed

lemma wf_exec: "wf s \<Longrightarrow> wf (exec s c)"
  by (cases c)
    (simp_all add: wf_cd wf_create_file wf_ln wf_mkdir wf_mv wf_rm wf_touch wf_write_file)

lemma wf_run: "wf s \<Longrightarrow> wf (run s cs)"
  unfolding run_def by (induction cs arbitrary: s) (simp_all add: wf_exec)

subsection \<open>Splitting and joining\<close>

lemma str_split_nonempty [simp]: "str_split s \<noteq> []"
  by (induction s) (auto split: list.splits)















subsection \<open>Reserved names\<close>




subsection \<open>Calls that keep reserved names out\<close>






lemma entries_add_links [simp]: "entries_of (add_links k n) = entries_of n"
  by (cases n) auto

lemma entries_write_contents [simp]:
  "\<not> isinstance_DirectoryNode n \<Longrightarrow> entries_of (write_contents n c) = []"
  by (cases n) auto

lemma entries_FileNode_init [simp]: "entries_of FileNode_init = []"
  by (simp add: FileNode_init_def)

lemma entries_DirectoryNode_init [simp]: "entries_of (DirectoryNode_init a p) = []"
  by (simp add: DirectoryNode_init_def)







subsection \<open>Counting entries\<close>








lemma cnt_add_links [simp]: "cnt (add_links k n) a = cnt n a"
  by (simp add: cnt_def)

lemma links_add_child [simp]:
  "isinstance_DirectoryNode n \<Longrightarrow> links (add_child n name c) = links n"
  by (cases n) auto

















subsection \<open>Safe calls keep the link counts\<close>





lemma links_FileNode_init [simp]: "links FileNode_init = 1"
  by (simp add: FileNode_init_def)

lemma links_DirectoryNode_init [simp]: "links (DirectoryNode_init a p) = 1"
  by (simp add: DirectoryNode_init_def)








subsection \<open>The session chain\<close>

text \<open>
  C1. The claim: every operation other than \<^verbatim>\<open>cd\<close> leaves the current-directory chain,
  and so the string \<^verbatim>\<open>cwd()\<close> returns, as it was; a relative path is resolved on a copy
  of the chain. The code of \<^verbatim>\<open>mv\<close> breaks it: \<^verbatim>\<open>_resolve_path\<close> walks the session's own
  list. On a fresh system, after \<^verbatim>\<open>mkdir("a")\<close> and \<^verbatim>\<open>touch("a/f")\<close> the working directory
  is \<^verbatim>\<open>/\<close>; \<^verbatim>\<open>mv("a/f", "a/g")\<close> then returns the moved node, and \<^verbatim>\<open>cwd()\<close> is
  \<^verbatim>\<open>/a/a\<close>, while \<^verbatim>\<open>_current\<close> is still the root.
\<close>

theorem mv_changes_session_chain:
  "cwd (run FileSystem_init [Mkdir ''a'' False, Touch ''a/f'']) = ''/''
   \<and> fst (mv (run FileSystem_init [Mkdir ''a'' False, Touch ''a/f'']) ''a/f'' ''a/g'') = Inr 2
   \<and> cwd (snd (mv (run FileSystem_init [Mkdir ''a'' False, Touch ''a/f'']) ''a/f'' ''a/g''))
       = ''/a/a''
   \<and> current (snd (mv (run FileSystem_init [Mkdir ''a'' False, Touch ''a/f'']) ''a/f'' ''a/g''))
       = root FileSystem_init"
  by code_simp

subsection \<open>Paths through a file\<close>

text \<open>
  C2. The claim: when a component that is not the last resolves to a file, the operation
  fails with \<^verbatim>\<open>NotADirectory\<close>, \<^verbatim>\<open>read_file\<close> in particular. The loop of \<^verbatim>\<open>_get_node\<close>
  skips the remaining components instead: after \<^verbatim>\<open>write_file("f", "hi")\<close> on a fresh
  system, \<^verbatim>\<open>read_file("f/x")\<close> returns the contents of \<^verbatim>\<open>f\<close>.
\<close>

theorem read_file_through_file:
  "read_file (run FileSystem_init [Write_file ''f'' ''hi'']) ''f/x'' False = Inr (Contents ''hi'')"
  by code_simp

subsection \<open>Failing operations\<close>

text \<open>
  C3. The claim: an operation that raises leaves the whole state as it was, and a failing
  \<^verbatim>\<open>rm\<close> leaves every link count as it was. \<^verbatim>\<open>rm\<close> decrements the link count before
  \<^verbatim>\<open>delete_child\<close>, which can still raise. On a fresh system, after \<^verbatim>\<open>mkdir("d")\<close>,
  \<^verbatim>\<open>touch("f")\<close> and \<^verbatim>\<open>cd("d")\<close>, the file \<^verbatim>\<open>/f\<close> is node 2 with one link;
  \<^verbatim>\<open>rm("/f")\<close> raises \<^verbatim>\<open>KeyError\<close> and leaves the file with no link, still listed in the
  root.
\<close>

theorem rm_failure_decrements_links:
  "get_node (run FileSystem_init [Mkdir ''d'' False, Touch ''f'', Cd (Some ''d'')]) ''/f'' = Some 2
   \<and> links (heap (run FileSystem_init [Mkdir ''d'' False, Touch ''f'', Cd (Some ''d'')]) ! 2) = 1
   \<and> fst (rm (run FileSystem_init [Mkdir ''d'' False, Touch ''f'', Cd (Some ''d'')]) ''/f'' False)
       = Inl (KeyError ''f'')
   \<and> links (heap (snd (rm (run FileSystem_init [Mkdir ''d'' False, Touch ''f'', Cd (Some ''d'')])
                          ''/f'' False)) ! 2) = 0
   \<and> ls (snd (rm (run FileSystem_init [Mkdir ''d'' False, Touch ''f'', Cd (Some ''d'')])
                ''/f'' False)) (Some ''/..'') = Inr [''d'', ''f'']"
  by code_simp

subsection \<open>Link counts\<close>




subsection \<open>Moving\<close>

text \<open>
  C5. The claim: \<^verbatim>\<open>mv(old, new)\<close> adds the entry at the new place and removes the old
  one, unless both parents are the same directory and the final components are equal.
  With two relative parent paths both \<^verbatim>\<open>_resolve_path\<close> calls return the session's list,
  which is equal to itself, so equal final components alone make \<^verbatim>\<open>mv\<close> return early.
  On a fresh system with directories \<^verbatim>\<open>a\<close> and \<^verbatim>\<open>b\<close> and the file \<^verbatim>\<open>a/f\<close>,
  \<^verbatim>\<open>mv("a/f", "b/f")\<close> returns the node and moves nothing.
\<close>

theorem mv_between_relative_parents_moves_nothing:
  "ls (run FileSystem_init [Mkdir ''a'' False, Mkdir ''b'' False, Touch ''a/f'']) (Some ''a'')
     = Inr [''f'']
   \<and> get_directory_or_fail (run FileSystem_init [Mkdir ''a'' False, Mkdir ''b'' False, Touch ''a/f''])
        (parent_path_of ''b/f'') = Inr 2
   \<and> fst (mv (run FileSystem_init [Mkdir ''a'' False, Mkdir ''b'' False, Touch ''a/f''])
            ''a/f'' ''b/f'') = Inr 3
   \<and> ls (snd (mv (run FileSystem_init [Mkdir ''a'' False, Mkdir ''b'' False, Touch ''a/f''])
                ''a/f'' ''b/f'')) (Some ''/a'') = Inr [''f'']
   \<and> ls (snd (mv (run FileSystem_init [Mkdir ''a'' False, Mkdir ''b'' False, Touch ''a/f''])
                ''a/f'' ''b/f'')) (Some ''/b'') = Inr []"
  by code_simp

subsection \<open>Reserved names\<close>




subsection \<open>Searching\<close>

text \<open>
  C7. On a fresh system, build the file \<^verbatim>\<open>/a/b/c/d/e\<close> and then the directory \<^verbatim>\<open>/a/b/e\<close>
  (with the calls of the repository's own test) and return to the root: \<^verbatim>\<open>find("e")\<close>
  returns exactly \<^verbatim>\<open>["a/b/e", "a/b/c/d/e"]\<close>, in this order.
\<close>

theorem find_order_example:
  "find_fs
     (run FileSystem_init
        [Mkdir ''a'' False, Cd (Some ''a''), Mkdir ''b'' False, Cd (Some ''b''),
         Mkdir ''c'' False, Cd (Some ''c''), Mkdir ''d'' False, Cd (Some ''d''),
         Touch ''e'', Cd (Some ''..''), Cd (Some ''..''), Mkdir ''e'' False,
         Cd (Some ''..''), Cd (Some ''..'')])
     ''e'' None
   = Some (Inr [''a/b/e'', ''a/b/c/d/e''])"
  by code_simp

subsection \<open>Writing and reading\<close>

text \<open>
  C8. The claim: when \<^verbatim>\<open>write_file(p, s)\<close> succeeds, \<^verbatim>\<open>read_file(p)\<close> returns \<open>s\<close>. For a
  root-relative path of one component the parent path is the empty string, which
  resolves to the current directory and not to the root. On a fresh system, after
  \<^verbatim>\<open>mkdir("d")\<close> and \<^verbatim>\<open>cd("d")\<close>, \<^verbatim>\<open>write_file("/x", "hi")\<close> succeeds and creates \<^verbatim>\<open>/d/x\<close>;
  \<^verbatim>\<open>read_file("/x")\<close> then raises \<^verbatim>\<open>NoSuchFileOrDirectory\<close>.
\<close>

theorem write_then_read_root_relative:
  "fst (write_file (run FileSystem_init [Mkdir ''d'' False, Cd (Some ''d'')]) ''/x'' ''hi'') = Inr 2
   \<and> read_file (snd (write_file (run FileSystem_init [Mkdir ''d'' False, Cd (Some ''d'')])
                       ''/x'' ''hi'')) ''/x'' False
       = Inl (NoSuchFileOrDirectory ''/x'')
   \<and> read_file (snd (write_file (run FileSystem_init [Mkdir ''d'' False, Cd (Some ''d'')])
                       ''/x'' ''hi'')) ''/d/x'' False
       = Inr (Contents ''hi'')"
  by code_simp

subsection \<open>Creating intermediate directories\<close>

text \<open>
  C9. The claim: \<^verbatim>\<open>mkdir(path, create_intermediates=True)\<close> creates the missing ancestors
  and the final directory and nothing else, so that for a path of one component in an
  empty directory \<^verbatim>\<open>ls()\<close> lists that one name. For such a path the parent path is the
  empty string, which \<^verbatim>\<open>_create_tree\<close> splits into one empty component: on a fresh
  system \<^verbatim>\<open>mkdir("x", create_intermediates=True)\<close> also creates a directory with the
  empty name, and \<^verbatim>\<open>ls()\<close> returns the empty name and \<^verbatim>\<open>x\<close>.
\<close>

theorem mkdir_intermediates_one_component:
  "ls FileSystem_init None = Inr []
   \<and> fst (mkdir FileSystem_init ''x'' True) = Inr 2
   \<and> ls (snd (mkdir FileSystem_init ''x'' True)) None = Inr [[], ''x'']"
  by code_simp

subsection \<open>Hard links to directories\<close>



end
